theory Spec2Isabelle
  imports
    Complex_Main
    "HOL-Library.Char_ord"
    "HOL-Library.List_Lexorder"
    "HOL-Library.Product_Lexorder"
begin

section \<open>Review records and text preprocessing\<close>

text \<open>
  The notebook \<^verbatim>\<open>Course3_Week3.ipynb\<close> predicts the star rating of a review from a
  bag-of-words encoding of its text. A review is a JSON object of which the code reads the
  two fields \<^verbatim>\<open>text\<close> and \<^verbatim>\<open>stars\<close>.

  Modelling conventions. Python's \<^verbatim>\<open>int\<close> is \<^typ>\<open>int\<close>. The floating-point numbers
  of the regression library (predictions, errors, regularisation strengths) are modelled as
  exact \<^typ>\<open>real\<close> numbers: rounding, infinities and NaN are outside the model. A text is
  a \<^typ>\<open>string\<close> of 8-bit characters (code points below 256). An exception is a value
  of type \<open>error\<close>, in the left summand of a result.
\<close>

record datum =
  text_of :: string
  stars :: int

datatype error =
  ZeroDivisionError
  | KeyError
  | IndexError
  | AttributeError
  | TypeError
  | ValueError

text \<open>
  \<^verbatim>\<open>punctuation = set(string.punctuation)\<close>: the 32 ASCII punctuation characters, in
  the order of \<^verbatim>\<open>string.punctuation\<close>. The double quote, the apostrophe, the
  backslash and the backquote are written by their codes.
\<close>

definition punctuation :: "char list" where
  "punctuation =
     [CHR ''!'', CHR 0x22, CHR ''#'', CHR ''$'', CHR ''%'', CHR ''&'', CHR 0x27, CHR ''('',
      CHR '')'', CHR ''*'', CHR ''+'', CHR '','', CHR ''-'', CHR ''.'', CHR ''/'', CHR '':'',
      CHR '';'', CHR ''<'', CHR ''='', CHR ''>'', CHR ''?'', CHR ''@'', CHR ''['', CHR 0x5C,
      CHR '']'', CHR ''^'', CHR ''_'', CHR 0x60, CHR ''{'', CHR ''|'', CHR ''}'', CHR ''~'']"

text \<open>
  \<^verbatim>\<open>str.lower()\<close> on code points below 256: the ASCII capitals and the Latin-1
  capitals (\<^verbatim>\<open>0xC0\<close> to \<^verbatim>\<open>0xDE\<close>, the multiplication sign \<^verbatim>\<open>0xD7\<close> apart)
  move up by 32, every other character stays.
\<close>

definition lower_char :: "char \<Rightarrow> char" where
  "lower_char c =
     (let n = (of_char c :: nat)
      in if (65 \<le> n \<and> n \<le> 90) \<or> (192 \<le> n \<and> n \<le> 222 \<and> n \<noteq> 215)
         then char_of (n + 32) else c)"

definition lower :: "string \<Rightarrow> string" where
  "lower s = map lower_char s"

text \<open>
  The characters at which \<^verbatim>\<open>str.split()\<close> without argument cuts: Python's
  \<^verbatim>\<open>str.isspace\<close> below 256 (tab, line feed, vertical tab, form feed, carriage return,
  the four separators \<^verbatim>\<open>0x1C\<close> to \<^verbatim>\<open>0x1F\<close>, space, next line \<^verbatim>\<open>0x85\<close> and
  no-break space \<^verbatim>\<open>0xA0\<close>).
\<close>

definition isspace :: "char \<Rightarrow> bool" where
  "isspace c =
     (let n = (of_char c :: nat)
      in (9 \<le> n \<and> n \<le> 13) \<or> (28 \<le> n \<and> n \<le> 32) \<or> n = 133 \<or> n = 160)"

text \<open>
  \<^verbatim>\<open>r.split()\<close>: the maximal runs of non-space characters, in order; no empty token.
  \<open>split_from cur s\<close> scans \<open>s\<close> with the token read so far in \<open>cur\<close>.
\<close>

fun split_from :: "string \<Rightarrow> string \<Rightarrow> string list" where
  "split_from cur [] = (if cur = [] then [] else [cur])"
| "split_from cur (c # cs) =
     (if isspace c
      then (if cur = [] then split_from [] cs else cur # split_from [] cs)
      else split_from (cur @ [c]) cs)"

definition split_ws :: "string \<Rightarrow> string list" where
  "split_ws s = split_from [] s"

text \<open>
  The two lines every cell repeats:
  \<^verbatim>\<open>r = ''.join([c for c in d['text'].lower() if not c in punctuation])\<close> and
  \<^verbatim>\<open>r.split()\<close>.
\<close>

definition strip_punct :: "string \<Rightarrow> string" where
  "strip_punct s = [c. c \<leftarrow> lower s, c \<notin> set punctuation]"

definition tokens :: "datum \<Rightarrow> string list" where
  "tokens d = split_ws (strip_punct (text_of d))"

section \<open>Vocabulary (cells 12/14 and 46)\<close>

text \<open>
  \<^verbatim>\<open>wordCount = defaultdict(int)\<close> is a dictionary in insertion order: an association
  list with distinct keys. \<^verbatim>\<open>wordCount[w] += 1\<close> adds one to the entry of \<open>w\<close>, which
  starts at 0 when the key is new and then goes to the end.
\<close>

type_synonym word_count = "(string \<times> int) list"

fun incr :: "string \<Rightarrow> word_count \<Rightarrow> word_count" where
  "incr w [] = [(w, 1)]"
| "incr w ((k, v) # kvs) = (if k = w then (k, v + 1) # kvs else (k, v) # incr w kvs)"

text \<open>
  \<^verbatim>\<open>for d in dataset: ... for w in r.split(): wordCount[w] += 1\<close>
\<close>

definition wordCount :: "datum list \<Rightarrow> word_count" where
  "wordCount dataset = fold (\<lambda>d wc. fold incr (tokens d) wc) dataset []"

text \<open>
  \<^verbatim>\<open>counts = [(wordCount[w], w) for w in wordCount]; counts.sort(); counts.reverse()\<close>.
  Tuples compare lexicographically: by count, then by the word, code point by code point.
\<close>

definition counts :: "datum list \<Rightarrow> (int \<times> string) list" where
  "counts dataset = rev (sort [(c, w). (w, c) \<leftarrow> wordCount dataset])"

text \<open>\<^verbatim>\<open>words = [x[1] for x in counts[:1000]]\<close>\<close>

definition words :: "datum list \<Rightarrow> string list" where
  "words dataset = [snd x. x \<leftarrow> take 1000 (counts dataset)]"

text \<open>
  \<^verbatim>\<open>wordId = dict(zip(words, range(len(words))))\<close>: when a key occurs twice, the later
  pair overwrites the earlier one. \<^verbatim>\<open>wordSet = set(words)\<close>.
\<close>

definition wordId :: "string list \<Rightarrow> (string \<rightharpoonup> nat)" where
  "wordId ws = map_of (rev (zip ws [0..<length ws]))"

definition wordSet :: "string list \<Rightarrow> string set" where
  "wordSet ws = set ws"

section \<open>Feature encoders (cells 16 and 47)\<close>

text \<open>
  \<^verbatim>\<open>feat[wordId[w]] += 1\<close>: the dictionary lookup raises \<^verbatim>\<open>KeyError\<close> on a missing
  key, the list access raises \<^verbatim>\<open>IndexError\<close> out of range.
\<close>

definition add_one :: "(string \<rightharpoonup> nat) \<Rightarrow> string \<Rightarrow> int list \<Rightarrow> error + int list" where
  "add_one wid w feat =
     (case wid w of
        None \<Rightarrow> Inl KeyError
      | Some i \<Rightarrow> if i < length feat then Inr (feat[i := feat ! i + 1]) else Inl IndexError)"

text \<open>The test \<^verbatim>\<open>w in words\<close> on a list: a scan from the front.\<close>

fun in_list :: "'a \<Rightarrow> 'a list \<Rightarrow> bool" where
  "in_list w [] = False"
| "in_list w (x # xs) = (if x = w then True else in_list w xs)"

text \<open>
  Part 1 (cell 16). The loop \<^verbatim>\<open>for w in r.split(): if w in wordSet: feat[wordId[w]] += 1\<close>,
  over the globals \<open>ws\<close> (\<^verbatim>\<open>words\<close>), \<^verbatim>\<open>wordSet\<close> and \<^verbatim>\<open>wordId\<close>.
\<close>

fun count_loop1 :: "string list \<Rightarrow> string list \<Rightarrow> int list \<Rightarrow> error + int list" where
  "count_loop1 ws [] feat = Inr feat"
| "count_loop1 ws (w # r) feat =
     (if w \<in> wordSet ws
      then (case add_one (wordId ws) w feat of
              Inl e \<Rightarrow> Inl e
            | Inr feat' \<Rightarrow> count_loop1 ws r feat')
      else count_loop1 ws r feat)"

definition feature1 :: "string list \<Rightarrow> datum \<Rightarrow> error + int list" where
  "feature1 ws d =
     (case count_loop1 ws (tokens d) (replicate (length ws) 0) of
        Inl e \<Rightarrow> Inl e
      | Inr feat \<Rightarrow> Inr (feat @ [1]))"

text \<open>
  Part 3 (cell 47), the encoder the pipeline uses: the same loop with the test
  \<^verbatim>\<open>if w in words\<close> on the list.
\<close>

fun count_loop :: "string list \<Rightarrow> string list \<Rightarrow> int list \<Rightarrow> error + int list" where
  "count_loop ws [] feat = Inr feat"
| "count_loop ws (w # r) feat =
     (if in_list w ws
      then (case add_one (wordId ws) w feat of
              Inl e \<Rightarrow> Inl e
            | Inr feat' \<Rightarrow> count_loop ws r feat')
      else count_loop ws r feat)"

definition feature :: "string list \<Rightarrow> datum \<Rightarrow> error + int list" where
  "feature ws d =
     (case count_loop ws (tokens d) (replicate (length ws) 0) of
        Inl e \<Rightarrow> Inl e
      | Inr feat \<Rightarrow> Inr (feat @ [1]))"

section \<open>The notebook's global state\<close>

text \<open>
  The cells of Part 3 communicate through global variables: the six partitions, the
  selection state \<^verbatim>\<open>bestModel\<close>/\<^verbatim>\<open>bestMSE\<close> (\<open>None\<close> is Python's \<^verbatim>\<open>None\<close>) and
  the lines printed so far. A printed line is kept as the values it shows. Cell 57 runs
  at top level, so the variables \<^verbatim>\<open>lamb\<close>, \<^verbatim>\<open>model\<close>, \<^verbatim>\<open>mseTrain\<close> and
  \<^verbatim>\<open>mseValid\<close> of its loop are global variables too (\<^verbatim>\<open>model\<close> is also assigned in
  cell 29 and read in cells 31 and 36): the fields \<open>lamb_var\<close>, \<open>model_var\<close>,
  \<open>mseTrain_var\<close> and \<open>mseValid_var\<close>, where \<open>None\<close> is a name not yet bound.
\<close>

datatype line =
  Diagnostic real real real
  | TestError real

record 'm env =
  X_train :: "int list list"
  X_valid :: "int list list"
  X_test :: "int list list"
  y_train :: "int list"
  y_valid :: "int list"
  y_test :: "int list"
  lamb_var :: "real option"
  model_var :: "'m option"
  mseTrain_var :: "real option"
  mseValid_var :: "real option"
  bestModel :: "'m option"
  bestMSE :: "real option"
  out :: "line list"

section \<open>Partitioner (cell 51)\<close>

text \<open>
  Python's slices \<^verbatim>\<open>xs[:b]\<close>, \<^verbatim>\<open>xs[a:b]\<close> and \<^verbatim>\<open>xs[a:]\<close> for indices that are not
  negative: the elements at positions \<open>a \<le> i < b\<close> that exist.
\<close>

definition slice_to :: "nat \<Rightarrow> 'a list \<Rightarrow> 'a list" where
  "slice_to b xs = take b xs"

definition slice :: "nat \<Rightarrow> nat \<Rightarrow> 'a list \<Rightarrow> 'a list" where
  "slice a b xs = drop a (take b xs)"

definition slice_from :: "nat \<Rightarrow> 'a list \<Rightarrow> 'a list" where
  "slice_from a xs = drop a xs"

text \<open>
  \<^verbatim>\<open>N = len(X)\<close>, then the three slices of \<open>X\<close> and, with the same \<open>N\<close>, of \<open>y\<close>.
  \<^verbatim>\<open>3*N//4\<close> is \<open>(3 * N) div 4\<close>.
\<close>

definition partitioner :: "int list list \<Rightarrow> int list \<Rightarrow> 'm env \<Rightarrow> 'm env" where
  "partitioner X y s =
     (let N = length X
      in s\<lparr>X_train := slice_to (N div 2) X,
           X_valid := slice (N div 2) (3 * N div 4) X,
           X_test := slice_from (3 * N div 4) X,
           y_train := slice_to (N div 2) y,
           y_valid := slice (N div 2) (3 * N div 4) y,
           y_test := slice_from (3 * N div 4) y\<rparr>)"

section \<open>Mean squared error (cell 55)\<close>

text \<open>
  The regression library is not part of the repository. Its two operations are parameters:
  \<open>fit lamb X y\<close> stands for \<^verbatim>\<open>model = linear_model.Ridge(lamb, fit_intercept=False)\<close>
  followed by \<^verbatim>\<open>model.fit(X, y)\<close>, and \<open>predict model X\<close> for \<^verbatim>\<open>model.predict(X)\<close>.
  Either may raise.
\<close>

type_synonym 'm fit = "real \<Rightarrow> int list list \<Rightarrow> int list \<Rightarrow> error + 'm"
type_synonym 'm predict = "'m \<Rightarrow> int list list \<Rightarrow> error + real list"

text \<open>
  \<^verbatim>\<open>differences = [(a-b)**2 for (a,b) in zip(predictions, y)]\<close>, where \<^verbatim>\<open>zip\<close> stops at
  the shorter list, and \<^verbatim>\<open>return sum(differences) / len(differences)\<close>, where the
  division raises \<^verbatim>\<open>ZeroDivisionError\<close> when the list is empty.
\<close>

definition MSE :: "'m predict \<Rightarrow> 'm \<Rightarrow> int list list \<Rightarrow> int list \<Rightarrow> error + real" where
  "MSE predict model X y =
     (case predict model X of
        Inl e \<Rightarrow> Inl e
      | Inr predictions \<Rightarrow>
          (let differences = [(a - of_int b) ^ 2. (a, b) \<leftarrow> zip predictions y]
           in if length differences = 0 then Inl ZeroDivisionError
              else Inr (sum_list differences / of_nat (length differences))))"

section \<open>Model selection (cells 56 and 57) and test evaluation (cell 59)\<close>

text \<open>\<^verbatim>\<open>bestModel = None; bestMSE = None\<close>\<close>

definition init :: "'m env \<Rightarrow> 'm env" where
  "init s = s\<lparr>bestModel := None, bestMSE := None\<rparr>"

text \<open>The candidate regularisation strengths \<^verbatim>\<open>[0.01, 0.1, 1, 10, 100]\<close>.\<close>

definition lambs :: "real list" where
  "lambs = [1 / 100, 1 / 10, 1, 10, 100]"

text \<open>
  The assignment pair \<^verbatim>\<open>bestModel = model; bestMSE = mseValid\<close>.
\<close>

definition keep :: "'m \<Rightarrow> real \<Rightarrow> 'm env \<Rightarrow> 'm env" where
  "keep model mseValid s = s\<lparr>bestModel := Some model, bestMSE := Some mseValid\<rparr>"

text \<open>
  One iteration of the loop body: the assignments to \<^verbatim>\<open>lamb\<close>, \<^verbatim>\<open>model\<close>,
  \<^verbatim>\<open>mseTrain\<close> and \<^verbatim>\<open>mseValid\<close>, the printed line, and the conditional update of
  the selection state. Every iteration constructs a new estimator object, so
  a model kept in \<^verbatim>\<open>bestModel\<close> is not changed by a later fit: models are values here.
  An estimator object is truthy (the class defines neither
  \<^verbatim>\<open>__bool__\<close> nor \<^verbatim>\<open>__len__\<close>), so \<^verbatim>\<open>not bestModel\<close> holds exactly when
  \<^verbatim>\<open>bestModel\<close> is \<^verbatim>\<open>None\<close>. The \<^verbatim>\<open>or\<close> evaluates \<^verbatim>\<open>mseValid < bestMSE\<close> only
  when its left side is false; comparing a number with \<^verbatim>\<open>None\<close> raises
  \<^verbatim>\<open>TypeError\<close>.
\<close>

definition body :: "'m fit \<Rightarrow> 'm predict \<Rightarrow> real \<Rightarrow> 'm env \<Rightarrow> error + 'm env" where
  "body fit predict lamb s =
     (case fit lamb (X_train s) (y_train s) of
        Inl e \<Rightarrow> Inl e
      | Inr model \<Rightarrow>
     (case MSE predict model (X_train s) (y_train s) of
        Inl e \<Rightarrow> Inl e
      | Inr mseTrain \<Rightarrow>
     (case MSE predict model (X_valid s) (y_valid s) of
        Inl e \<Rightarrow> Inl e
      | Inr mseValid \<Rightarrow>
          (let s1 = s\<lparr>lamb_var := Some lamb, model_var := Some model,
                     mseTrain_var := Some mseTrain, mseValid_var := Some mseValid,
                     out := out s @ [Diagnostic lamb mseTrain mseValid]\<rparr>
           in if bestModel s = None then Inr (keep model mseValid s1)
              else (case bestMSE s of
                      None \<Rightarrow> Inl TypeError
                    | Some b \<Rightarrow>
                        if mseValid < b then Inr (keep model mseValid s1) else Inr s1)))))"

text \<open>\<^verbatim>\<open>for lamb in ...:\<close> an exception in an iteration ends the loop.\<close>

fun loop :: "'m fit \<Rightarrow> 'm predict \<Rightarrow> real list \<Rightarrow> 'm env \<Rightarrow> error + 'm env" where
  "loop fit predict [] s = Inr s"
| "loop fit predict (lamb # rest) s =
     (case body fit predict lamb s of
        Inl e \<Rightarrow> Inl e
      | Inr s' \<Rightarrow> loop fit predict rest s')"

text \<open>
  Cell 59: \<^verbatim>\<open>mseTest = MSE(bestModel, X_test, y_test)\<close> and the line
  \<^verbatim>\<open>test error = ...\<close>. With \<^verbatim>\<open>bestModel = None\<close> the call
  \<^verbatim>\<open>model.predict\<close> raises \<^verbatim>\<open>AttributeError\<close>.
  The value assigned to \<^verbatim>\<open>mseTest\<close> is the one the printed line shows.
\<close>

definition evaluate :: "'m predict \<Rightarrow> 'm env \<Rightarrow> error + 'm env" where
  "evaluate predict s =
     (case bestModel s of
        None \<Rightarrow> Inl AttributeError
      | Some model \<Rightarrow>
          (case MSE predict model (X_test s) (y_test s) of
             Inl e \<Rightarrow> Inl e
           | Inr mseTest \<Rightarrow> Inr (s\<lparr>out := out s @ [TestError mseTest]\<rparr>)))"

text \<open>Cells 56, 57 and 59 in sequence.\<close>

definition pipeline :: "'m fit \<Rightarrow> 'm predict \<Rightarrow> 'm env \<Rightarrow> error + 'm env" where
  "pipeline fit predict s =
     (case loop fit predict lambs (init s) of
        Inl e \<Rightarrow> Inl e
      | Inr s' \<Rightarrow> evaluate predict s')"

section \<open>Notions used in the statements\<close>

text \<open>
  The corpus is the sequence of all tokens of all records, in reading order; the frequency
  of a word is the number of its occurrences there.
\<close>

definition corpus :: "datum list \<Rightarrow> string list" where
  "corpus dataset = concat (map tokens dataset)"

definition freq :: "datum list \<Rightarrow> string \<Rightarrow> int" where
  "freq dataset w = int (count_list (corpus dataset) w)"

text \<open>
  The selection state is consistent when \<open>bestModel\<close> and \<open>bestMSE\<close> are both unset or
  both set.
\<close>

definition consistent :: "'m env \<Rightarrow> bool" where
  "consistent s \<longleftrightarrow> (bestModel s = None) = (bestMSE s = None)"

text \<open>
  \<open>evaluated fit predict s M T V lamb\<close>: on the partitions of \<open>s\<close>, the library fits
  the model \<open>M lamb\<close> for the strength \<open>lamb\<close>, and \<open>MSE\<close> returns the training error
  \<open>T lamb\<close> and the validation error \<open>V lamb\<close> for it.
\<close>

definition evaluated ::
  "'m fit \<Rightarrow> 'm predict \<Rightarrow> 'm env \<Rightarrow> (real \<Rightarrow> 'm) \<Rightarrow> (real \<Rightarrow> real) \<Rightarrow> (real \<Rightarrow> real)
     \<Rightarrow> real \<Rightarrow> bool" where
  "evaluated fit predict s M T V lamb \<longleftrightarrow>
     fit lamb (X_train s) (y_train s) = Inr (M lamb)
   \<and> MSE predict (M lamb) (X_train s) (y_train s) = Inr (T lamb)
   \<and> MSE predict (M lamb) (X_valid s) (y_valid s) = Inr (V lamb)"

text \<open>The printed lines that report a test error.\<close>

fun is_test_error :: "line \<Rightarrow> bool" where
  "is_test_error (TestError mse) = True"
| "is_test_error (Diagnostic lamb mseTrain mseValid) = False"

section \<open>A synthetic library and small inputs\<close>

text \<open>
  Concrete inputs for evaluating the definitions. The synthetic model is a single number:
  fitting returns the strength itself and the model predicts that number for every row.
\<close>

definition toy_fit :: "real fit" where
  "toy_fit lamb X y = Inr lamb"

definition toy_predict :: "real predict" where
  "toy_predict model X = Inr (map (\<lambda>x. model) X)"

text \<open>
  A synthetic predict that validates its input as the regression library's does: an empty
  feature list is rejected with \<open>ValueError\<close>.
\<close>

definition checking_predict :: "real predict" where
  "checking_predict model X = (if X = [] then Inl ValueError else Inr (map (\<lambda>x. model) X))"

definition empty_env :: "real env" where
  "empty_env =
     \<lparr>X_train = [], X_valid = [], X_test = [], y_train = [], y_valid = [], y_test = [],
      lamb_var = None, model_var = None, mseTrain_var = None, mseValid_var = None,
      bestModel = None, bestMSE = None, out = []\<rparr>"

definition toy_X :: "int list list" where
  "toy_X = [[0, 1], [1, 1], [2, 1], [3, 1], [4, 1]]"

definition toy_y :: "int list" where
  "toy_y = [1, 1, 1, 5, 5]"

definition toy_env :: "real env" where
  "toy_env = partitioner toy_X toy_y empty_env"

text \<open>The states of the synthetic run after one, two, three, four and all five candidates.\<close>

definition toy_after1 :: "real env" where
  "toy_after1 = toy_env\<lparr>lamb_var := Some (1 / 100), model_var := Some (1 / 100),
     mseTrain_var := Some (9801 / 10000), mseValid_var := Some (9801 / 10000),
     out := [Diagnostic (1 / 100) (9801 / 10000) (9801 / 10000)],
     bestModel := Some (1 / 100), bestMSE := Some (9801 / 10000)\<rparr>"

definition toy_after2 :: "real env" where
  "toy_after2 = toy_env\<lparr>lamb_var := Some (1 / 10), model_var := Some (1 / 10),
     mseTrain_var := Some (81 / 100), mseValid_var := Some (81 / 100),
     out := [Diagnostic (1 / 100) (9801 / 10000) (9801 / 10000),
       Diagnostic (1 / 10) (81 / 100) (81 / 100)],
     bestModel := Some (1 / 10), bestMSE := Some (81 / 100)\<rparr>"

definition toy_after3 :: "real env" where
  "toy_after3 = toy_env\<lparr>lamb_var := Some 1, model_var := Some 1,
     mseTrain_var := Some 0, mseValid_var := Some 0,
     out := [Diagnostic (1 / 100) (9801 / 10000) (9801 / 10000),
       Diagnostic (1 / 10) (81 / 100) (81 / 100), Diagnostic 1 0 0],
     bestModel := Some 1, bestMSE := Some 0\<rparr>"

definition toy_after4 :: "real env" where
  "toy_after4 = toy_env\<lparr>lamb_var := Some 10, model_var := Some 10,
     mseTrain_var := Some 81, mseValid_var := Some 81,
     out := [Diagnostic (1 / 100) (9801 / 10000) (9801 / 10000),
       Diagnostic (1 / 10) (81 / 100) (81 / 100), Diagnostic 1 0 0, Diagnostic 10 81 81],
     bestModel := Some 1, bestMSE := Some 0\<rparr>"

definition toy_selected :: "real env" where
  "toy_selected = toy_env\<lparr>lamb_var := Some 100, model_var := Some 100,
     mseTrain_var := Some 9801, mseValid_var := Some 9801,
     out := [Diagnostic (1 / 100) (9801 / 10000) (9801 / 10000),
       Diagnostic (1 / 10) (81 / 100) (81 / 100), Diagnostic 1 0 0,
       Diagnostic 10 81 81, Diagnostic 100 9801 9801],
     bestModel := Some 1, bestMSE := Some 0\<rparr>"

text \<open>Two reviews, a third record to encode, and a corpus of 1001 distinct words.\<close>

definition toy_reviews :: "datum list" where
  "toy_reviews =
     [\<lparr>text_of = ''Good food, GOOD place!'', stars = 5\<rparr>,
      \<lparr>text_of = ''bad  food.'', stars = 1\<rparr>]"

definition toy_datum :: datum where
  "toy_datum = \<lparr>text_of = ''Food good; not bad, GOOD!'', stars = 3\<rparr>"

definition many_words :: "datum list" where
  "many_words = map (\<lambda>n. \<lparr>text_of = replicate (Suc n) CHR ''a'', stars = 1\<rparr>) [0..<1001]"

section \<open>Partitioner: sizes and contiguity\<close>

lemma quarters: "(N::nat) div 2 \<le> 3 * N div 4" "3 * N div 4 \<le> N"
  by presburger+

lemma slices_join:
  "slice_to (N div 2) xs @ slice (N div 2) (3 * N div 4) xs @ slice_from (3 * N div 4) xs = xs"
proof -
  have "take (N div 2) xs = take (N div 2) (take (3 * N div 4) xs)"
    using quarters(1) [of N] by (simp add: min_def)
  then have "take (N div 2) xs @ drop (N div 2) (take (3 * N div 4) xs) = take (3 * N div 4) xs"
    by (metis append_take_drop_id)
  then have "(take (N div 2) xs @ drop (N div 2) (take (3 * N div 4) xs)) @ drop (3 * N div 4) xs
      = xs"
    by simp
  then show ?thesis
    by (simp add: slice_to_def slice_def slice_from_def)
qed

lemma slice_take_drop: "a \<le> b \<Longrightarrow> slice a b xs = take (b - a) (drop a xs)"
  by (simp add: slice_def drop_take)

text \<open>
  Claim C2. For a feature list \<open>X\<close> of \<open>N\<close> records and a label list \<open>y\<close> of the same
  length, the train slice has \<open>N div 2\<close> elements, the validation slice the
  \<open>3 * N div 4 - N div 2\<close> elements from position \<open>N div 2\<close> on, the test slice the
  remaining \<open>N - 3 * N div 4\<close>; the three sizes add up to \<open>N\<close>, and the slices are
  contiguous: put one after the other they give the list back. The order of the records
  (the shuffle before the split) plays no role.
\<close>

theorem partition_sizes:
  assumes "length y = length X"
  shows "length (X_train (partitioner X y s)) = length X div 2
    \<and> length (X_valid (partitioner X y s)) = 3 * length X div 4 - length X div 2
    \<and> length (X_test (partitioner X y s)) = length X - 3 * length X div 4
    \<and> length (y_train (partitioner X y s)) = length X div 2
    \<and> length (y_valid (partitioner X y s)) = 3 * length X div 4 - length X div 2
    \<and> length (y_test (partitioner X y s)) = length X - 3 * length X div 4
    \<and> length (X_train (partitioner X y s)) + length (X_valid (partitioner X y s))
        + length (X_test (partitioner X y s)) = length X
    \<and> X_train (partitioner X y s) = take (length X div 2) X
    \<and> X_valid (partitioner X y s)
        = take (3 * length X div 4 - length X div 2) (drop (length X div 2) X)
    \<and> X_test (partitioner X y s) = drop (3 * length X div 4) X
    \<and> X_train (partitioner X y s) @ X_valid (partitioner X y s) @ X_test (partitioner X y s) = X
    \<and> y_train (partitioner X y s) @ y_valid (partitioner X y s) @ y_test (partitioner X y s) = y"
proof -
  let ?N = "length X"
  have q: "?N div 2 \<le> 3 * ?N div 4" "3 * ?N div 4 \<le> ?N" by (rule quarters)+
  have sel: "X_train (partitioner X y s) = slice_to (?N div 2) X"
    "X_valid (partitioner X y s) = slice (?N div 2) (3 * ?N div 4) X"
    "X_test (partitioner X y s) = slice_from (3 * ?N div 4) X"
    "y_train (partitioner X y s) = slice_to (?N div 2) y"
    "y_valid (partitioner X y s) = slice (?N div 2) (3 * ?N div 4) y"
    "y_test (partitioner X y s) = slice_from (3 * ?N div 4) y"
    by (simp_all add: partitioner_def Let_def)
  have lens: "length (slice_to (?N div 2) X) = ?N div 2"
    "length (slice (?N div 2) (3 * ?N div 4) X) = 3 * ?N div 4 - ?N div 2"
    "length (slice_from (3 * ?N div 4) X) = ?N - 3 * ?N div 4"
    "length (slice_to (?N div 2) y) = ?N div 2"
    "length (slice (?N div 2) (3 * ?N div 4) y) = 3 * ?N div 4 - ?N div 2"
    "length (slice_from (3 * ?N div 4) y) = ?N - 3 * ?N div 4"
    using q assms by (simp_all add: slice_to_def slice_def slice_from_def min_absorb2)
  have total: "?N div 2 + (3 * ?N div 4 - ?N div 2) + (?N - 3 * ?N div 4) = ?N"
    using q by linarith
  have shape: "slice_to (?N div 2) X = take (?N div 2) X"
    "slice (?N div 2) (3 * ?N div 4) X = take (3 * ?N div 4 - ?N div 2) (drop (?N div 2) X)"
    "slice_from (3 * ?N div 4) X = drop (3 * ?N div 4) X"
    using q by (simp_all add: slice_to_def slice_take_drop slice_from_def)
  have joinX: "slice_to (?N div 2) X @ slice (?N div 2) (3 * ?N div 4) X
      @ slice_from (3 * ?N div 4) X = X"
    by (rule slices_join)
  have joiny: "slice_to (?N div 2) y @ slice (?N div 2) (3 * ?N div 4) y
      @ slice_from (3 * ?N div 4) y = y"
    by (rule slices_join)
  show ?thesis
    unfolding sel lens by (intro conjI refl total shape joinX joiny)
qed

text \<open>Five records: two for training, one for validation, two for testing.\<close>

theorem partition_sizes_witness:
  "length toy_y = length toy_X
   \<and> X_train (partitioner toy_X toy_y empty_env) = [[0, 1], [1, 1]]
   \<and> X_valid (partitioner toy_X toy_y empty_env) = [[2, 1]]
   \<and> X_test (partitioner toy_X toy_y empty_env) = [[3, 1], [4, 1]]
   \<and> length (X_train (partitioner toy_X toy_y empty_env))
      + length (X_valid (partitioner toy_X toy_y empty_env))
      + length (X_test (partitioner toy_X toy_y empty_env)) = 5"
proof -
  have h: "length toy_y = length toy_X" by (simp add: toy_X_def toy_y_def)
  show ?thesis
    using h partition_sizes [OF h, of empty_env]
    by (simp add: toy_X_def toy_y_def)
qed

section \<open>Mean squared error\<close>

lemma squares_of_equal:
  "[(a - of_int b) ^ 2. (a, b) \<leftarrow> zip (map of_int y) y] = replicate (length y) (0::real)"
  by (induction y) auto

text \<open>
  Claim C6. When the model's predictions are, element by element, the targets, and there
  is at least one of them, \<open>MSE\<close> returns exactly 0.
\<close>

theorem MSE_identical:
  assumes "predict model X = Inr predictions"
    and "predictions = map of_int y"
    and "y \<noteq> []"
  shows "MSE predict model X y = Inr 0"
  using assms by (simp add: MSE_def squares_of_equal sum_list_replicate)

theorem MSE_identical_witness:
  "toy_predict 3 [[0, 1], [1, 1]] = Inr [3, 3]
   \<and> [3, 3 :: real] = map of_int [3, 3 :: int]
   \<and> [3, 3 :: int] \<noteq> []
   \<and> MSE toy_predict 3 [[0, 1], [1, 1]] [3, 3] = Inr 0"
proof -
  have h1: "toy_predict 3 [[0, 1], [1, 1]] = Inr [3, 3]" by (simp add: toy_predict_def)
  have h2: "[3, 3 :: real] = map of_int [3, 3 :: int]" by simp
  have h3: "[3, 3 :: int] \<noteq> []" by simp
  show ?thesis
    using h1 h3
      MSE_identical [where predict = toy_predict and model = 3 and X = "[[0, 1], [1, 1]]"
        and predictions = "[3, 3]" and y = "[3, 3]", OF h1 h2 h3]
    by simp
qed

text \<open>
  The statement that \<open>MSE\<close> on an empty feature list and an empty target list always
  reaches the division by zero, with no descriptive error before it, fails for a predict
  that validates its input, as the regression library's does: its \<open>ValueError\<close> is
  raised first and the division is never reached.
\<close>

theorem MSE_empty_counterexample:
  "MSE checking_predict 3 [] [] = Inl ValueError
   \<and> MSE checking_predict 3 [] [] \<noteq> Inl ZeroDivisionError"
  by (simp add: MSE_def checking_predict_def)

text \<open>
  Claim C8, amended. \<open>MSE\<close> has no guard of its own for empty input and returns no
  value on an empty feature list and an empty target list: when the library's prediction
  raises on the empty list, that error propagates before the division is reached; when it
  returns, the list of differences is empty and the division raises
  \<open>ZeroDivisionError\<close>.
\<close>

theorem MSE_empty:
  "MSE predict model [] [] =
     (case predict model [] of
        Inl e \<Rightarrow> Inl e
      | Inr predictions \<Rightarrow> Inl ZeroDivisionError)"
  by (simp add: MSE_def split: sum.splits)

theorem MSE_empty_witness:
  "toy_predict 3 [] = Inr [] \<and> MSE toy_predict 3 [] [] = Inl ZeroDivisionError"
proof -
  have h: "toy_predict 3 [] = Inr []" by (simp add: toy_predict_def)
  show ?thesis
    using h MSE_empty [where predict = toy_predict and model = 3]
    by simp
qed

section \<open>The two encoders\<close>

lemma in_list_set: "in_list w xs \<longleftrightarrow> w \<in> set xs"
  by (induction xs) auto

lemma count_loop1_eq: "count_loop1 ws r feat = count_loop ws r feat"
  by (induction r arbitrary: feat) (auto simp: in_list_set wordSet_def split: sum.splits)

text \<open>
  Claim C10. For every vocabulary list and every record, the encoder of Part 1 (membership
  in the set \<open>wordSet\<close>) and the encoder of Part 3 (membership in the list \<open>words\<close>)
  return the same result.
\<close>

theorem feature_parts_agree: "feature1 ws d = feature ws d"
  by (simp add: feature1_def feature_def count_loop1_eq)

section \<open>Selection with no candidate\<close>

text \<open>
  Claim C7. With an empty candidate list the loop body never runs: the state after the
  loop is the state after cell 56, in which \<open>bestModel\<close> and \<open>bestMSE\<close> are
  \<open>None\<close>. No model is selected, and the test evaluation of cell 59 on that state
  raises \<open>AttributeError\<close>.
\<close>

theorem no_candidates:
  "loop fit predict [] (init s) = Inr (init s)
   \<and> bestModel (init s) = None \<and> bestMSE (init s) = None
   \<and> evaluate predict (init s) = Inl AttributeError"
  by (simp add: init_def evaluate_def)

section \<open>The loop body and the loop\<close>

lemma body_cases:
  assumes "body fit predict lamb s = Inr s'"
  shows "\<exists>model t v.
      fit lamb (X_train s) (y_train s) = Inr model
    \<and> MSE predict model (X_train s) (y_train s) = Inr t
    \<and> MSE predict model (X_valid s) (y_valid s) = Inr v
    \<and> ((s' = s\<lparr>lamb_var := Some lamb, model_var := Some model, mseTrain_var := Some t,
              mseValid_var := Some v, out := out s @ [Diagnostic lamb t v]\<rparr>
          \<and> bestModel s \<noteq> None \<and> (\<exists>b. bestMSE s = Some b \<and> b \<le> v))
        \<or> (s' = s\<lparr>lamb_var := Some lamb, model_var := Some model, mseTrain_var := Some t,
              mseValid_var := Some v, out := out s @ [Diagnostic lamb t v],
                   bestModel := Some model, bestMSE := Some v\<rparr>
          \<and> (bestModel s = None \<or> (\<exists>b. bestMSE s = Some b \<and> v < b))))"
proof -
  from assms obtain model where m: "fit lamb (X_train s) (y_train s) = Inr model"
    by (auto simp: body_def split: sum.splits)
  from assms m obtain t where t: "MSE predict model (X_train s) (y_train s) = Inr t"
    by (auto simp: body_def split: sum.splits)
  from assms m t obtain v where v: "MSE predict model (X_valid s) (y_valid s) = Inr v"
    by (auto simp: body_def split: sum.splits)
  let ?s1 = "s\<lparr>lamb_var := Some lamb, model_var := Some model, mseTrain_var := Some t,
              mseValid_var := Some v, out := out s @ [Diagnostic lamb t v]\<rparr>"
  have b: "body fit predict lamb s =
      (if bestModel s = None then Inr (keep model v ?s1)
       else (case bestMSE s of None \<Rightarrow> Inl TypeError
             | Some b \<Rightarrow> if v < b then Inr (keep model v ?s1) else Inr ?s1))"
    by (simp add: body_def m t v Let_def)
  show ?thesis
  proof (cases "bestModel s = None")
    case True
    then have "s' = keep model v ?s1" using assms b by simp
    then show ?thesis using m t v True by (auto simp: keep_def)
  next
    case False
    then obtain b0 where b0: "bestMSE s = Some b0"
      using assms b by (cases "bestMSE s") auto
    show ?thesis
    proof (cases "v < b0")
      case True
      then have "s' = keep model v ?s1" using assms b False b0 by simp
      then show ?thesis using m t v b0 True by (auto simp: keep_def)
    next
      case nl: False
      then have "s' = ?s1" using assms b False b0 by simp
      then show ?thesis using m t v b0 nl False by auto
    qed
  qed
qed

lemma body_succeeds:
  assumes "fit lamb (X_train s) (y_train s) = Inr model"
    and "MSE predict model (X_train s) (y_train s) = Inr t"
    and "MSE predict model (X_valid s) (y_valid s) = Inr v"
    and "bestModel s = None \<or> bestMSE s \<noteq> None"
  shows "\<exists>s'. body fit predict lamb s = Inr s'"
  using assms by (auto simp: body_def Let_def split: option.splits)

lemma loop_append:
  "loop fit predict (xs @ ys) s =
     (case loop fit predict xs s of Inl e \<Rightarrow> Inl e | Inr s' \<Rightarrow> loop fit predict ys s')"
  by (induction xs arbitrary: s) (auto split: sum.splits)

lemma body_consistent: "body fit predict lamb s = Inr s' \<Longrightarrow> consistent s \<Longrightarrow> consistent s'"
  using body_cases [of fit predict lamb s s'] by (auto simp: consistent_def)

lemma loop_consistent: "loop fit predict ls s = Inr s' \<Longrightarrow> consistent s \<Longrightarrow> consistent s'"
proof (induction ls arbitrary: s)
  case Nil
  then show ?case by simp
next
  case (Cons lamb ls)
  then obtain s1 where s1: "body fit predict lamb s = Inr s1" "loop fit predict ls s1 = Inr s'"
    by (auto split: sum.splits)
  then show ?case using Cons.IH body_consistent Cons.prems(2) by blast
qed

lemma init_consistent: "consistent (init s)"
  by (simp add: consistent_def init_def)

lemma body_frame:
  assumes "body fit predict lamb s = Inr s'"
  shows "X_train s' = X_train s \<and> X_valid s' = X_valid s \<and> X_test s' = X_test s
    \<and> y_train s' = y_train s \<and> y_valid s' = y_valid s \<and> y_test s' = y_test s"
  using body_cases [OF assms] by auto

lemma loop_frame:
  "loop fit predict ls s = Inr s' \<Longrightarrow>
   X_train s' = X_train s \<and> X_valid s' = X_valid s \<and> X_test s' = X_test s
    \<and> y_train s' = y_train s \<and> y_valid s' = y_valid s \<and> y_test s' = y_test s"
proof (induction ls arbitrary: s)
  case Nil
  then show ?case by simp
next
  case (Cons lamb ls)
  then obtain s1 where s1: "body fit predict lamb s = Inr s1" "loop fit predict ls s1 = Inr s'"
    by (auto split: sum.splits)
  show ?case using Cons.IH [OF s1(2)] body_frame [OF s1(1)] by simp
qed

lemma evaluated_frame:
  "X_train s' = X_train s \<Longrightarrow> y_train s' = y_train s \<Longrightarrow> X_valid s' = X_valid s
   \<Longrightarrow> y_valid s' = y_valid s
   \<Longrightarrow> evaluated fit predict s' M T V lamb = evaluated fit predict s M T V lamb"
  by (simp add: evaluated_def)

lemma body_evaluated:
  assumes ev: "evaluated fit predict s M T V lamb" and c: "consistent s"
  shows "\<exists>s'. body fit predict lamb s = Inr s'
    \<and> ((s' = s\<lparr>lamb_var := Some lamb, model_var := Some (M lamb), mseTrain_var := Some (T lamb),
              mseValid_var := Some (V lamb), out := out s @ [Diagnostic lamb (T lamb) (V lamb)]\<rparr>
          \<and> (\<exists>b. bestMSE s = Some b \<and> b \<le> V lamb))
       \<or> (s' = s\<lparr>lamb_var := Some lamb, model_var := Some (M lamb), mseTrain_var := Some (T lamb),
              mseValid_var := Some (V lamb), out := out s @ [Diagnostic lamb (T lamb) (V lamb)],
                  bestModel := Some (M lamb), bestMSE := Some (V lamb)\<rparr>
          \<and> (bestMSE s = None \<or> (\<exists>b. bestMSE s = Some b \<and> V lamb < b))))"
proof -
  have "bestModel s = None \<or> bestMSE s \<noteq> None" using c by (auto simp: consistent_def)
  then obtain s' where s': "body fit predict lamb s = Inr s'"
    using body_succeeds [where fit = fit and lamb = lamb and s = s and model = "M lamb"
        and predict = predict and t = "T lamb" and v = "V lamb"] ev
    unfolding evaluated_def by blast
  show ?thesis
    using body_cases [OF s'] ev c s' unfolding evaluated_def consistent_def by auto
qed

lemma loop_selects:
  assumes "\<forall>lamb\<in>set ls. evaluated fit predict s M T V lamb" and "consistent s"
  shows "\<exists>s'. loop fit predict ls s = Inr s'
     \<and> out s' = out s @ map (\<lambda>l. Diagnostic l (T l) (V l)) ls
     \<and> ((bestModel s' = bestModel s \<and> bestMSE s' = bestMSE s
           \<and> (ls = [] \<or> (\<exists>b. bestMSE s = Some b \<and> (\<forall>l\<in>set ls. b \<le> V l))))
        \<or> (\<exists>pre best post. ls = pre @ best # post
             \<and> bestModel s' = Some (M best) \<and> bestMSE s' = Some (V best)
             \<and> (\<forall>l\<in>set pre. V best < V l) \<and> (\<forall>l\<in>set post. V best \<le> V l)
             \<and> (\<forall>b. bestMSE s = Some b \<longrightarrow> V best < b)))"
  using assms
proof (induction ls arbitrary: s)
  case Nil
  then show ?case by simp
next
  case (Cons lamb rest)
  have ev: "evaluated fit predict s M T V lamb" using Cons.prems(1) by simp
  obtain s1 where s1: "body fit predict lamb s = Inr s1"
    and alt: "(s1 = s\<lparr>lamb_var := Some lamb, model_var := Some (M lamb), mseTrain_var := Some (T lamb),
              mseValid_var := Some (V lamb), out := out s @ [Diagnostic lamb (T lamb) (V lamb)]\<rparr>
          \<and> (\<exists>b. bestMSE s = Some b \<and> b \<le> V lamb))
       \<or> (s1 = s\<lparr>lamb_var := Some lamb, model_var := Some (M lamb), mseTrain_var := Some (T lamb),
              mseValid_var := Some (V lamb), out := out s @ [Diagnostic lamb (T lamb) (V lamb)],
                  bestModel := Some (M lamb), bestMSE := Some (V lamb)\<rparr>
          \<and> (bestMSE s = None \<or> (\<exists>b. bestMSE s = Some b \<and> V lamb < b)))"
    using body_evaluated [OF ev Cons.prems(2)] by blast
  have fr: "X_train s1 = X_train s" "y_train s1 = y_train s" "X_valid s1 = X_valid s"
    "y_valid s1 = y_valid s"
    using body_frame [OF s1] by simp_all
  have ev1: "\<forall>l\<in>set rest. evaluated fit predict s1 M T V l"
    using Cons.prems(1) by (simp add: evaluated_frame [OF fr])
  have c1: "consistent s1" using body_consistent [OF s1 Cons.prems(2)] .
  obtain s' where run: "loop fit predict rest s1 = Inr s'"
    and o: "out s' = out s1 @ map (\<lambda>l. Diagnostic l (T l) (V l)) rest"
    and res: "(bestModel s' = bestModel s1 \<and> bestMSE s' = bestMSE s1
           \<and> (rest = [] \<or> (\<exists>b. bestMSE s1 = Some b \<and> (\<forall>l\<in>set rest. b \<le> V l))))
        \<or> (\<exists>pre best post. rest = pre @ best # post
             \<and> bestModel s' = Some (M best) \<and> bestMSE s' = Some (V best)
             \<and> (\<forall>l\<in>set pre. V best < V l) \<and> (\<forall>l\<in>set post. V best \<le> V l)
             \<and> (\<forall>b. bestMSE s1 = Some b \<longrightarrow> V best < b))"
    using Cons.IH [OF ev1 c1] by blast
  from res consider
    (same) "bestModel s' = bestModel s1" "bestMSE s' = bestMSE s1"
      "rest = [] \<or> (\<exists>b. bestMSE s1 = Some b \<and> (\<forall>l\<in>set rest. b \<le> V l))"
  | (better) pre best post where "rest = pre @ best # post" "bestModel s' = Some (M best)"
      "bestMSE s' = Some (V best)" "\<forall>l\<in>set pre. V best < V l" "\<forall>l\<in>set post. V best \<le> V l"
      "\<forall>b. bestMSE s1 = Some b \<longrightarrow> V best < b"
    by blast
  note rest_cases = this
  have whole: "loop fit predict (lamb # rest) s = Inr s'" using s1 run by simp
  have o1: "out s1 = out s @ [Diagnostic lamb (T lamb) (V lamb)]" using alt by auto
  have o': "out s' = out s @ map (\<lambda>l. Diagnostic l (T l) (V l)) (lamb # rest)"
    using o o1 by simp
  have sel: "(bestModel s' = bestModel s \<and> bestMSE s' = bestMSE s
           \<and> (lamb # rest = [] \<or> (\<exists>b. bestMSE s = Some b \<and> (\<forall>l\<in>set (lamb # rest). b \<le> V l))))
        \<or> (\<exists>pre best post. lamb # rest = pre @ best # post
             \<and> bestModel s' = Some (M best) \<and> bestMSE s' = Some (V best)
             \<and> (\<forall>l\<in>set pre. V best < V l) \<and> (\<forall>l\<in>set post. V best \<le> V l)
             \<and> (\<forall>b. bestMSE s = Some b \<longrightarrow> V best < b))"
  proof -
    consider
      (stay) b where "s1 = s\<lparr>lamb_var := Some lamb, model_var := Some (M lamb), mseTrain_var := Some (T lamb),
              mseValid_var := Some (V lamb), out := out s @ [Diagnostic lamb (T lamb) (V lamb)]\<rparr>"
        "bestMSE s = Some b" "b \<le> V lamb"
    | (take) "s1 = s\<lparr>lamb_var := Some lamb, model_var := Some (M lamb), mseTrain_var := Some (T lamb),
              mseValid_var := Some (V lamb), out := out s @ [Diagnostic lamb (T lamb) (V lamb)],
                  bestModel := Some (M lamb), bestMSE := Some (V lamb)\<rparr>"
        "\<forall>b. bestMSE s = Some b \<longrightarrow> V lamb < b"
      using alt by auto
    then show ?thesis
    proof cases
      case stay
      have same: "bestModel s1 = bestModel s" "bestMSE s1 = Some b" using stay by simp_all
      from rest_cases show ?thesis
      proof cases
        case r: same
        have "\<forall>l\<in>set (lamb # rest). b \<le> V l"
          using r(3) same stay(3) by auto
        then show ?thesis using r(1,2) same stay(2) by auto
      next
        case d: better
        have lt: "V best < b" using d(6) same by simp
        have "lamb # rest = (lamb # pre) @ best # post" using d(1) by simp
        moreover have "\<forall>l\<in>set (lamb # pre). V best < V l" using d(4) lt stay(3) by auto
        moreover have "\<forall>b. bestMSE s = Some b \<longrightarrow> V best < b" using lt stay(2) by simp
        ultimately show ?thesis using d(2,3,5) by blast
      qed
    next
      case take
      have now: "bestModel s1 = Some (M lamb)" "bestMSE s1 = Some (V lamb)" using take by simp_all
      from rest_cases show ?thesis
      proof cases
        case r: same
        have "bestModel s' = Some (M lamb)" "bestMSE s' = Some (V lamb)"
          "\<forall>l\<in>set rest. V lamb \<le> V l"
          using r now by auto
        moreover have "lamb # rest = [] @ lamb # rest" by simp
        moreover have "\<forall>l\<in>set []. V lamb < V l" by simp
        ultimately show ?thesis using take(2) by blast
      next
        case d: better
        have lt: "V best < V lamb" using d(6) now by simp
        have "lamb # rest = (lamb # pre) @ best # post" using d(1) by simp
        moreover have "\<forall>l\<in>set (lamb # pre). V best < V l" using d(4) lt by auto
        moreover have "\<forall>b. bestMSE s = Some b \<longrightarrow> V best < b" using lt take(2) by fastforce
        ultimately show ?thesis using d(2,3,5) by blast
      qed
    qed
  qed
  show ?case using whole o' sel by blast
qed

section \<open>Selection of the first minimum\<close>

lemma toy_env_eq:
  "toy_env = \<lparr>X_train = [[0, 1], [1, 1]], X_valid = [[2, 1]], X_test = [[3, 1], [4, 1]],
      y_train = [1, 1], y_valid = [1], y_test = [5, 5],
      lamb_var = None, model_var = None, mseTrain_var = None, mseValid_var = None,
      bestModel = None, bestMSE = None, out = []\<rparr>"
  by (simp add: toy_env_def partitioner_def toy_X_def toy_y_def empty_env_def
      slice_to_def slice_def slice_from_def)

lemma toy_MSE:
  "MSE toy_predict m [[0, 1], [1, 1]] [1, 1] = Inr ((m - 1)\<^sup>2)"
  "MSE toy_predict m [[2, 1]] [1] = Inr ((m - 1)\<^sup>2)"
  "MSE toy_predict m [[3, 1], [4, 1]] [5, 5] = Inr ((m - 5)\<^sup>2)"
  by (simp_all add: MSE_def toy_predict_def)

lemma toy_evaluated:
  "evaluated toy_fit toy_predict toy_env (\<lambda>l. l) (\<lambda>l. (l - 1)\<^sup>2) (\<lambda>l. (l - 1)\<^sup>2) lamb"
  by (simp add: evaluated_def toy_env_eq toy_fit_def toy_MSE)

text \<open>
  Claim C1. Suppose that for each of the five candidates \<open>[0.01, 0.1, 1, 10, 100]\<close> the
  library fits a model \<open>M lamb\<close> on the training partition and \<open>MSE\<close> returns its
  training error \<open>T lamb\<close> and its validation error \<open>V lamb\<close>. Then the loop, started
  from the state of cell 56, returns; it prints one line per candidate, in order, with
  these errors; and it retains a candidate \<open>best\<close> (its model \<open>M best\<close> and its
  validation error \<open>V best\<close>) such that every earlier candidate has a strictly larger
  validation error and no later candidate has a smaller one: the smallest validation
  error wins, and among equal ones the first seen.
\<close>

theorem selector_first_minimum:
  assumes "\<forall>lamb\<in>set lambs. evaluated fit predict s M T V lamb"
  shows "\<exists>s' pre best post.
      loop fit predict lambs (init s) = Inr s'
    \<and> lambs = pre @ best # post
    \<and> bestModel s' = Some (M best) \<and> bestMSE s' = Some (V best)
    \<and> (\<forall>l\<in>set pre. V best < V l) \<and> (\<forall>l\<in>set post. V best \<le> V l)
    \<and> out s' = out s @ map (\<lambda>l. Diagnostic l (T l) (V l)) lambs"
proof -
  have ev: "\<forall>lamb\<in>set lambs. evaluated fit predict (init s) M T V lamb"
    using assms by (simp add: evaluated_def init_def)
  obtain s' where run: "loop fit predict lambs (init s) = Inr s'"
    and o: "out s' = out (init s) @ map (\<lambda>l. Diagnostic l (T l) (V l)) lambs"
    and res: "(bestModel s' = bestModel (init s) \<and> bestMSE s' = bestMSE (init s)
           \<and> (lambs = [] \<or> (\<exists>b. bestMSE (init s) = Some b \<and> (\<forall>l\<in>set lambs. b \<le> V l))))
        \<or> (\<exists>pre best post. lambs = pre @ best # post
             \<and> bestModel s' = Some (M best) \<and> bestMSE s' = Some (V best)
             \<and> (\<forall>l\<in>set pre. V best < V l) \<and> (\<forall>l\<in>set post. V best \<le> V l)
             \<and> (\<forall>b. bestMSE (init s) = Some b \<longrightarrow> V best < b))"
    using loop_selects [OF ev init_consistent] by blast
  have "lambs \<noteq> []" "bestMSE (init s) = None" "out (init s) = out s"
    by (simp_all add: lambs_def init_def)
  then show ?thesis using run o res by auto
qed

theorem selector_first_minimum_witness:
  "list_all (evaluated toy_fit toy_predict toy_env (\<lambda>l. l) (\<lambda>l. (l - 1)\<^sup>2) (\<lambda>l. (l - 1)\<^sup>2)) lambs
   \<and> (\<exists>s'. loop toy_fit toy_predict lambs (init toy_env) = Inr s'
         \<and> bestModel s' = Some 1 \<and> bestMSE s' = Some 0)"
proof -
  have h: "\<forall>lamb\<in>set lambs.
      evaluated toy_fit toy_predict toy_env (\<lambda>l. l) (\<lambda>l. (l - 1)\<^sup>2) (\<lambda>l. (l - 1)\<^sup>2) lamb"
    by (simp add: toy_evaluated)
  obtain s' pre best post where run: "loop toy_fit toy_predict lambs (init toy_env) = Inr s'"
    and d: "lambs = pre @ best # post"
    and b: "bestModel s' = Some best" "bestMSE s' = Some ((best - 1)\<^sup>2)"
    and lo: "\<forall>l\<in>set pre. (best - 1)\<^sup>2 < (l - 1)\<^sup>2" "\<forall>l\<in>set post. (best - 1)\<^sup>2 \<le> (l - 1)\<^sup>2"
    using selector_first_minimum [OF h] by blast
  have "1 \<in> set (pre @ best # post)"
    by (simp only: d [symmetric]) (simp add: lambs_def)
  then have "1 \<in> set pre \<or> best = 1 \<or> 1 \<in> set post" by auto
  then have "(best - 1)\<^sup>2 \<le> 0" using lo by force
  then have "best = 1" by simp
  then show ?thesis using run b h by (auto simp: list_all_iff)
qed

section \<open>Monotone updates of the selection state\<close>

lemma body_antimono:
  assumes "body fit predict lamb s = Inr s'" and "consistent s"
  shows "\<exists>b'. bestMSE s' = Some b' \<and> (\<forall>b. bestMSE s = Some b \<longrightarrow> b' \<le> b)"
  using body_cases [OF assms(1)] assms(2) by (auto simp: consistent_def)

lemma loop_antimono:
  "loop fit predict ls s = Inr s' \<Longrightarrow> consistent s \<Longrightarrow> bestMSE s = Some b
   \<Longrightarrow> \<exists>b'. bestMSE s' = Some b' \<and> b' \<le> b"
proof (induction ls arbitrary: s b)
  case Nil
  then show ?case by simp
next
  case (Cons lamb ls)
  then obtain s1 where s1: "body fit predict lamb s = Inr s1" "loop fit predict ls s1 = Inr s'"
    by (auto split: sum.splits)
  obtain b1 where b1: "bestMSE s1 = Some b1" "b1 \<le> b"
    using body_antimono [OF s1(1) Cons.prems(2)] Cons.prems(3) by auto
  have "consistent s1" using body_consistent [OF s1(1) Cons.prems(2)] .
  then obtain b' where "bestMSE s' = Some b'" "b' \<le> b1"
    using Cons.IH [OF s1(2) _ b1(1)] by blast
  then show ?case using b1(2) by auto
qed

text \<open>
  Claim C9, amended. Let \<open>s\<close> be a state the loop reaches from the state of cell 56,
  \<open>s'\<close> the state after one more iteration and \<open>s''\<close> any state the loop reaches
  later. The iteration assigns its own global variables \<open>lamb\<close>, \<open>model\<close>,
  \<open>mseTrain\<close> and \<open>mseValid\<close> and prints one line. Beyond that it either changes
  nothing, and then \<open>bestMSE\<close> was set and is not larger than the new validation error;
  or it assigns \<open>bestModel\<close> and \<open>bestMSE\<close> together, and then both were unset or
  the new validation error is strictly smaller than the old \<open>bestMSE\<close>. Once set,
  \<open>bestMSE\<close> never increases. No other field of the state changes in the iteration,
  and the six partitions are never modified.
\<close>

theorem selection_monotone:
  assumes reach: "loop fit predict pre (init s0) = Inr s"
    and step: "body fit predict lamb s = Inr s'"
    and later: "loop fit predict post s' = Inr s''"
  shows "(\<exists>model t v.
        fit lamb (X_train s) (y_train s) = Inr model
      \<and> MSE predict model (X_train s) (y_train s) = Inr t
      \<and> MSE predict model (X_valid s) (y_valid s) = Inr v
      \<and> ((s' = s\<lparr>lamb_var := Some lamb, model_var := Some model, mseTrain_var := Some t,
              mseValid_var := Some v, out := out s @ [Diagnostic lamb t v]\<rparr>
            \<and> (\<exists>b. bestMSE s = Some b \<and> b \<le> v))
          \<or> (s' = s\<lparr>lamb_var := Some lamb, model_var := Some model, mseTrain_var := Some t,
              mseValid_var := Some v, out := out s @ [Diagnostic lamb t v],
                     bestModel := Some model, bestMSE := Some v\<rparr>
            \<and> ((bestModel s = None \<and> bestMSE s = None)
                \<or> (\<exists>b. bestMSE s = Some b \<and> v < b)))))
    \<and> (\<exists>b' b''. bestMSE s' = Some b' \<and> bestMSE s'' = Some b'' \<and> b'' \<le> b')
    \<and> X_train s'' = X_train s \<and> X_valid s'' = X_valid s \<and> X_test s'' = X_test s
    \<and> y_train s'' = y_train s \<and> y_valid s'' = y_valid s \<and> y_test s'' = y_test s"
proof -
  have c: "consistent s" using loop_consistent [OF reach init_consistent] .
  have c': "consistent s'" using body_consistent [OF step c] .
  have one: "\<exists>model t v.
        fit lamb (X_train s) (y_train s) = Inr model
      \<and> MSE predict model (X_train s) (y_train s) = Inr t
      \<and> MSE predict model (X_valid s) (y_valid s) = Inr v
      \<and> ((s' = s\<lparr>lamb_var := Some lamb, model_var := Some model, mseTrain_var := Some t,
              mseValid_var := Some v, out := out s @ [Diagnostic lamb t v]\<rparr>
            \<and> (\<exists>b. bestMSE s = Some b \<and> b \<le> v))
          \<or> (s' = s\<lparr>lamb_var := Some lamb, model_var := Some model, mseTrain_var := Some t,
              mseValid_var := Some v, out := out s @ [Diagnostic lamb t v],
                     bestModel := Some model, bestMSE := Some v\<rparr>
            \<and> ((bestModel s = None \<and> bestMSE s = None)
                \<or> (\<exists>b. bestMSE s = Some b \<and> v < b))))"
    using body_cases [OF step] c unfolding consistent_def by blast
  obtain b' where b': "bestMSE s' = Some b'"
    using body_antimono [OF step c] by blast
  obtain b'' where b'': "bestMSE s'' = Some b''" "b'' \<le> b'"
    using loop_antimono [OF later c' b'] by blast
  have two: "\<exists>b' b''. bestMSE s' = Some b' \<and> bestMSE s'' = Some b'' \<and> b'' \<le> b'"
    using b' b'' by blast
  have three: "X_train s'' = X_train s \<and> X_valid s'' = X_valid s \<and> X_test s'' = X_test s
    \<and> y_train s'' = y_train s \<and> y_valid s'' = y_valid s \<and> y_test s'' = y_test s"
    using loop_frame [OF later] body_frame [OF step] by simp
  show ?thesis by (rule conjI [OF one conjI [OF two three]])
qed

lemma toy_body:
  "body toy_fit toy_predict lamb
       (toy_env\<lparr>lamb_var := l0, model_var := m0, mseTrain_var := t0, mseValid_var := v0,
          out := ls, bestModel := bm, bestMSE := Some b\<rparr>)
     = (let s1 = toy_env\<lparr>lamb_var := Some lamb, model_var := Some lamb,
                  mseTrain_var := Some ((lamb - 1)\<^sup>2), mseValid_var := Some ((lamb - 1)\<^sup>2),
                  out := ls @ [Diagnostic lamb ((lamb - 1)\<^sup>2) ((lamb - 1)\<^sup>2)],
                  bestModel := bm, bestMSE := Some b\<rparr>
        in if bm = None \<or> (lamb - 1)\<^sup>2 < b
           then Inr (s1\<lparr>bestModel := Some lamb, bestMSE := Some ((lamb - 1)\<^sup>2)\<rparr>)
           else Inr s1)"
  by (simp add: body_def toy_fit_def toy_env_eq toy_MSE keep_def Let_def)

lemma toy_body_init:
  "body toy_fit toy_predict lamb (init toy_env)
     = Inr (toy_env\<lparr>lamb_var := Some lamb, model_var := Some lamb,
              mseTrain_var := Some ((lamb - 1)\<^sup>2), mseValid_var := Some ((lamb - 1)\<^sup>2),
              out := [Diagnostic lamb ((lamb - 1)\<^sup>2) ((lamb - 1)\<^sup>2)],
              bestModel := Some lamb, bestMSE := Some ((lamb - 1)\<^sup>2)\<rparr>)"
  by (simp add: body_def toy_fit_def toy_env_eq toy_MSE keep_def init_def Let_def)

lemma toy_step1: "loop toy_fit toy_predict [1 / 100] (init toy_env) = Inr toy_after1"
  by (simp add: toy_body_init toy_after1_def power2_eq_square)

lemma toy_step2: "body toy_fit toy_predict (1 / 10) toy_after1 = Inr toy_after2"
  by (simp add: toy_after1_def toy_after2_def toy_body power2_eq_square)

lemma toy_step3: "loop toy_fit toy_predict [1] toy_after2 = Inr toy_after3"
  by (simp add: toy_after2_def toy_after3_def toy_body)

theorem selection_monotone_witness:
  "loop toy_fit toy_predict [1 / 100] (init toy_env) = Inr toy_after1
   \<and> body toy_fit toy_predict (1 / 10) toy_after1 = Inr toy_after2
   \<and> loop toy_fit toy_predict [1] toy_after2 = Inr toy_after3
   \<and> bestMSE toy_after1 = Some (9801 / 10000)
   \<and> bestMSE toy_after2 = Some (81 / 100)
   \<and> bestMSE toy_after3 = Some 0
   \<and> (\<exists>b' b''. bestMSE toy_after2 = Some b' \<and> bestMSE toy_after3 = Some b'' \<and> b'' \<le> b')
   \<and> model_var toy_after2 = Some (1 / 10)
   \<and> X_test toy_after3 = X_test toy_after1"
  using selection_monotone [OF toy_step1 toy_step2 toy_step3] toy_step1 toy_step2 toy_step3
  by (simp add: toy_after1_def toy_after2_def toy_after3_def)

lemma toy_step4: "body toy_fit toy_predict 10 toy_after3 = Inr toy_after4"
  by (simp add: toy_after3_def toy_after4_def toy_body)

lemma toy_steps123: "loop toy_fit toy_predict [1 / 100, 1 / 10, 1] (init toy_env) = Inr toy_after3"
  using toy_step1 toy_step2 toy_step3
    loop_append [of toy_fit toy_predict "[1 / 100]" "[1 / 10, 1]" "init toy_env"]
  by simp

text \<open>
  The statement that the loop modifies no state other than \<open>bestModel\<close> and
  \<open>bestMSE\<close> fails: the fourth iteration of the synthetic run leaves the selection
  state as it is and rebinds the global variable \<open>model\<close>.
\<close>

theorem selection_frame_counterexample:
  "loop toy_fit toy_predict [1 / 100, 1 / 10, 1] (init toy_env) = Inr toy_after3
   \<and> body toy_fit toy_predict 10 toy_after3 = Inr toy_after4
   \<and> bestModel toy_after4 = bestModel toy_after3
   \<and> bestMSE toy_after4 = bestMSE toy_after3
   \<and> model_var toy_after3 = Some 1
   \<and> model_var toy_after4 = Some 10
   \<and> model_var toy_after4 \<noteq> model_var toy_after3"
  using toy_steps123 toy_step4 by (simp add: toy_after3_def toy_after4_def)

section \<open>The test partition\<close>

lemma body_ignores_test:
  "body fit predict lamb (s\<lparr>X_test := Xt, y_test := yt\<rparr>)
     = (case body fit predict lamb s of
          Inl e \<Rightarrow> Inl e
        | Inr s' \<Rightarrow> Inr (s'\<lparr>X_test := Xt, y_test := yt\<rparr>))"
  by (auto simp: body_def keep_def Let_def split: sum.splits option.splits)

lemma loop_ignores_test:
  "loop fit predict ls (s\<lparr>X_test := Xt, y_test := yt\<rparr>)
     = (case loop fit predict ls s of
          Inl e \<Rightarrow> Inl e
        | Inr s' \<Rightarrow> Inr (s'\<lparr>X_test := Xt, y_test := yt\<rparr>))"
proof (induction ls arbitrary: s)
  case Nil
  then show ?case by simp
next
  case (Cons lamb ls)
  show ?case
  proof (cases "body fit predict lamb s")
    case (Inl e)
    then show ?thesis by (simp add: body_ignores_test)
  next
    case (Inr s1)
    then show ?thesis by (simp add: body_ignores_test Cons.IH)
  qed
qed

lemma body_line:
  assumes "body fit predict lamb s = Inr s'"
  shows "\<exists>t v. out s' = out s @ [Diagnostic lamb t v]"
  using body_cases [OF assms] by auto

lemma loop_lines:
  "loop fit predict ls s = Inr s' \<Longrightarrow>
   \<exists>lines. out s' = out s @ lines \<and> length lines = length ls
     \<and> (\<forall>l\<in>set lines. \<not> is_test_error l)"
proof (induction ls arbitrary: s)
  case Nil
  then show ?case by simp
next
  case (Cons lamb ls)
  then obtain s1 where s1: "body fit predict lamb s = Inr s1" "loop fit predict ls s1 = Inr s'"
    by (auto split: sum.splits)
  obtain t v where d: "out s1 = out s @ [Diagnostic lamb t v]"
    using body_line [OF s1(1)] by blast
  obtain lines where l: "out s' = out s1 @ lines" "length lines = length ls"
    "\<forall>l\<in>set lines. \<not> is_test_error l"
    using Cons.IH [OF s1(2)] by blast
  have "out s' = out s @ (Diagnostic lamb t v # lines)" using d l(1) by simp
  moreover have "length (Diagnostic lamb t v # lines) = length (lamb # ls)" using l(2) by simp
  moreover have "\<forall>l\<in>set (Diagnostic lamb t v # lines). \<not> is_test_error l" using l(3) by simp
  ultimately show ?case by blast
qed

text \<open>
  Claim C3. The loop neither reads nor writes the test partition: replacing \<open>X_test\<close>
  and \<open>y_test\<close> before the loop gives the same outcome, with the replaced partition
  carried along. When the pipeline of cells 56, 57 and 59 completes, the loop has
  finished over all five candidates, none of its five lines is a test error, and the
  final state is the selected state with a single line appended: the test error of the
  selected model on the test partition.
\<close>

theorem test_error_once:
  "loop fit predict ls (s\<lparr>X_test := Xt, y_test := yt\<rparr>)
     = (case loop fit predict ls s of
          Inl e \<Rightarrow> Inl e
        | Inr s1 \<Rightarrow> Inr (s1\<lparr>X_test := Xt, y_test := yt\<rparr>))
   \<and> (pipeline fit predict s = Inr s' \<longrightarrow>
        (\<exists>sel model mseTest lines.
            loop fit predict lambs (init s) = Inr sel
          \<and> bestModel sel = Some model
          \<and> out sel = out s @ lines \<and> length lines = length lambs
          \<and> (\<forall>l\<in>set lines. \<not> is_test_error l)
          \<and> MSE predict model (X_test s) (y_test s) = Inr mseTest
          \<and> s' = sel\<lparr>out := out sel @ [TestError mseTest]\<rparr>))"
proof (rule conjI [OF loop_ignores_test], rule impI)
  assume run: "pipeline fit predict s = Inr s'"
  then obtain sel where sel: "loop fit predict lambs (init s) = Inr sel"
    and ev: "evaluate predict sel = Inr s'"
    by (auto simp: pipeline_def split: sum.splits)
  from ev obtain model where m: "bestModel sel = Some model"
    by (auto simp: evaluate_def split: option.splits)
  from ev m obtain mseTest where t: "MSE predict model (X_test sel) (y_test sel) = Inr mseTest"
    and s': "s' = sel\<lparr>out := out sel @ [TestError mseTest]\<rparr>"
    by (auto simp: evaluate_def split: sum.splits)
  have fr: "X_test sel = X_test s" "y_test sel = y_test s"
    using loop_frame [OF sel] by (simp_all add: init_def)
  obtain lines where l: "out sel = out s @ lines" "length lines = length lambs"
    "\<forall>l\<in>set lines. \<not> is_test_error l"
    using loop_lines [OF sel] by (auto simp: init_def)
  show "\<exists>sel model mseTest lines.
            loop fit predict lambs (init s) = Inr sel
          \<and> bestModel sel = Some model
          \<and> out sel = out s @ lines \<and> length lines = length lambs
          \<and> (\<forall>l\<in>set lines. \<not> is_test_error l)
          \<and> MSE predict model (X_test s) (y_test s) = Inr mseTest
          \<and> s' = sel\<lparr>out := out sel @ [TestError mseTest]\<rparr>"
    using sel m l t s' unfolding fr by blast
qed

lemma toy_init: "init toy_env = toy_env"
  by (simp add: init_def toy_env_eq)

lemma toy_loop: "loop toy_fit toy_predict lambs (init toy_env) = Inr toy_selected"
  by (simp add: lambs_def toy_body_init toy_body toy_selected_def power2_eq_square)

lemma toy_evaluate:
  "evaluate toy_predict toy_selected = Inr (toy_selected\<lparr>out := out toy_selected @ [TestError 16]\<rparr>)"
  by (simp add: evaluate_def toy_selected_def toy_env_eq toy_MSE)

lemma toy_pipeline:
  "pipeline toy_fit toy_predict toy_env
     = Inr (toy_selected\<lparr>out := out toy_selected @ [TestError 16]\<rparr>)"
  by (simp only: pipeline_def toy_loop sum.case toy_evaluate)

theorem test_error_once_witness:
  "pipeline toy_fit toy_predict toy_env
     = Inr (toy_selected\<lparr>out := out toy_selected @ [TestError 16]\<rparr>)
   \<and> loop toy_fit toy_predict lambs toy_env = Inr toy_selected
   \<and> loop toy_fit toy_predict lambs (toy_env\<lparr>X_test := [], y_test := []\<rparr>)
       = Inr (toy_selected\<lparr>X_test := [], y_test := []\<rparr>)
   \<and> filter is_test_error (out (toy_selected\<lparr>out := out toy_selected @ [TestError 16]\<rparr>))
       = [TestError 16]"
proof -
  have l: "loop toy_fit toy_predict lambs toy_env = Inr toy_selected"
    using toy_loop by (simp only: toy_init)
  have f: "filter is_test_error (out (toy_selected\<lparr>out := out toy_selected @ [TestError 16]\<rparr>))
       = [TestError 16]"
    by (simp add: toy_selected_def)
  show ?thesis
    using test_error_once [where fit = toy_fit and predict = toy_predict and ls = lambs
        and s = toy_env and Xt = "[]" and yt = "[]"
        and s' = "toy_selected\<lparr>out := out toy_selected @ [TestError 16]\<rparr>"]
      toy_pipeline l f
    by simp
qed

section \<open>Vocabulary: the most frequent words\<close>

lemma incr_keys: "fst ` set (incr w kvs) = insert w (fst ` set kvs)"
  by (induction w kvs rule: incr.induct) auto

lemma incr_distinct: "distinct (map fst kvs) \<Longrightarrow> distinct (map fst (incr w kvs))"
  by (induction w kvs rule: incr.induct) (auto simp: incr_keys)

lemma incr_lookup:
  "map_of (incr w kvs) k =
     (if k = w then Some ((case map_of kvs w of None \<Rightarrow> 0 | Some c \<Rightarrow> c) + 1) else map_of kvs k)"
  by (induction w kvs rule: incr.induct) auto

lemma fold_incr_keys: "fst ` set (fold incr ts kvs) = set ts \<union> fst ` set kvs"
  by (induction ts arbitrary: kvs) (auto simp: incr_keys)

lemma fold_incr_distinct: "distinct (map fst kvs) \<Longrightarrow> distinct (map fst (fold incr ts kvs))"
  by (induction ts arbitrary: kvs) (auto simp: incr_distinct)

lemma fold_incr_lookup:
  "k \<in> set ts \<union> fst ` set kvs \<Longrightarrow>
   map_of (fold incr ts kvs) k
     = Some ((case map_of kvs k of None \<Rightarrow> 0 | Some c \<Rightarrow> c) + int (count_list ts k))"
proof (induction ts arbitrary: kvs)
  case Nil
  then show ?case by (auto simp: map_of_eq_None_iff split: option.splits)
next
  case (Cons t ts)
  have "k \<in> set ts \<union> fst ` set (incr t kvs)" using Cons.prems by (auto simp: incr_keys)
  then show ?case using Cons.IH [of "incr t kvs"] by (simp add: incr_lookup)
qed

lemma wordCount_corpus: "wordCount dataset = fold incr (corpus dataset) []"
proof -
  have "fold (\<lambda>d wc. fold incr (tokens d) wc) ds wc = fold incr (concat (map tokens ds)) wc"
    for ds wc
    by (induction ds arbitrary: wc) auto
  then show ?thesis by (simp add: wordCount_def corpus_def)
qed

lemma wordCount_keys: "fst ` set (wordCount dataset) = set (corpus dataset)"
  by (simp add: wordCount_corpus fold_incr_keys)

lemma wordCount_distinct: "distinct (map fst (wordCount dataset))"
  by (simp add: wordCount_corpus fold_incr_distinct)

lemma wordCount_value: "(w, c) \<in> set (wordCount dataset) \<Longrightarrow> c = freq dataset w"
proof -
  assume m: "(w, c) \<in> set (wordCount dataset)"
  then have "map_of (wordCount dataset) w = Some c"
    using wordCount_distinct by simp
  moreover have "w \<in> fst ` set (wordCount dataset)" using m by (rule image_eqI [rotated]) simp
  then have "w \<in> set (corpus dataset)" by (simp only: wordCount_keys)
  ultimately show ?thesis
    using fold_incr_lookup [of w "corpus dataset" "[]"] by (simp add: wordCount_corpus freq_def)
qed

lemma counts_set: "set (counts dataset) = (\<lambda>(w, c). (c, w)) ` set (wordCount dataset)"
  unfolding counts_def by simp

lemma counts_length: "length (counts dataset) = length (wordCount dataset)"
  unfolding counts_def by simp

lemma counts_entry:
  assumes "x \<in> set (counts dataset)"
  shows "fst x = freq dataset (snd x) \<and> snd x \<in> set (corpus dataset)"
proof -
  obtain w c where m: "(w, c) \<in> set (wordCount dataset)" and x: "x = (c, w)"
    using assms unfolding counts_set by auto
  have "w \<in> fst ` set (wordCount dataset)" using m by (rule image_eqI [rotated]) simp
  then have "w \<in> set (corpus dataset)" by (simp only: wordCount_keys)
  then show ?thesis using wordCount_value [OF m] x by simp
qed

lemma distinct_snd_rev_sort:
  fixes xs :: "(int \<times> string) list"
  assumes "distinct (map snd xs)"
  shows "distinct (map snd (rev (sort xs)))"
proof -
  have dx: "distinct xs" and inj: "inj_on snd (set xs)"
    using assms distinct_map by blast+
  have "distinct (rev (sort xs))" using dx by simp
  moreover have "inj_on snd (set (rev (sort xs)))" using inj by simp
  ultimately show ?thesis using distinct_map by blast
qed

lemma swap_snd: "map snd (map (\<lambda>(w, c). (c, w)) kvs) = map fst kvs"
  by (induction kvs) auto

lemma counts_words_distinct: "distinct (map snd (counts dataset))"
  unfolding counts_def
  by (rule distinct_snd_rev_sort) (simp only: swap_snd wordCount_distinct)

lemma counts_words_set: "set (map snd (counts dataset)) = set (corpus dataset)"
proof -
  have "snd ` (\<lambda>(w, c). (c, w)) ` set (wordCount dataset) = fst ` set (wordCount dataset)"
    by force
  then show ?thesis by (simp add: counts_set wordCount_keys)
qed

lemma counts_descending:
  "i \<le> j \<Longrightarrow> j < length (counts dataset) \<Longrightarrow> fst (counts dataset ! j) \<le> fst (counts dataset ! i)"
proof -
  assume ij: "i \<le> j" "j < length (counts dataset)"
  have "sorted (rev (counts dataset))" by (simp add: counts_def)
  then have "counts dataset ! j \<le> counts dataset ! i"
    using ij by (rule sorted_rev_nth_mono)
  then have "fst (counts dataset ! j) < fst (counts dataset ! i)
      \<or> fst (counts dataset ! j) \<le> fst (counts dataset ! i)"
    unfolding less_eq_prod_def by blast
  then show ?thesis by linarith
qed

lemma words_take: "words dataset = take 1000 (map snd (counts dataset))"
  by (simp add: words_def take_map)

lemma words_distinct: "distinct (words dataset)"
  by (simp add: words_take counts_words_distinct)

lemma words_length: "length (words dataset) = min 1000 (card (set (corpus dataset)))"
proof -
  have "card (set (map snd (counts dataset))) = length (map snd (counts dataset))"
    using counts_words_distinct by (rule distinct_card)
  then have "card (set (corpus dataset)) = length (counts dataset)"
    by (simp only: counts_words_set length_map)
  then show ?thesis by (simp add: words_take min.commute)
qed

lemma words_nth:
  "i < length (words dataset) \<Longrightarrow>
   words dataset ! i = snd (counts dataset ! i) \<and> i < length (counts dataset) \<and> i < 1000"
  by (simp add: words_take)

lemma words_freq:
  "i < length (words dataset) \<Longrightarrow> freq dataset (words dataset ! i) = fst (counts dataset ! i)"
  using words_nth [of i dataset] counts_entry [of "counts dataset ! i" dataset] by simp

text \<open>
  Claim C5. For every corpus, the vocabulary \<open>words\<close> has at most 1000 entries: exactly
  1000, or all distinct tokens of the corpus when there are fewer. Its entries are distinct
  tokens of the corpus, in order of decreasing frequency (the most frequent at index 0),
  and no token left out is more frequent than a token kept.
\<close>

theorem vocabulary_top_K:
  "length (words dataset) \<le> 1000
   \<and> length (words dataset) = min 1000 (card (set (corpus dataset)))
   \<and> distinct (words dataset)
   \<and> set (words dataset) \<subseteq> set (corpus dataset)
   \<and> (\<forall>i j. i \<le> j \<and> j < length (words dataset)
         \<longrightarrow> freq dataset (words dataset ! j) \<le> freq dataset (words dataset ! i))
   \<and> (\<forall>w \<in> set (corpus dataset) - set (words dataset). \<forall>v \<in> set (words dataset).
         freq dataset w \<le> freq dataset v)"
proof -
  have len: "length (words dataset) \<le> 1000" by (simp add: words_def)
  have sub: "set (words dataset) \<subseteq> set (corpus dataset)"
    using set_take_subset [of 1000 "map snd (counts dataset)"]
    unfolding words_take counts_words_set .
  have desc: "freq dataset (words dataset ! j) \<le> freq dataset (words dataset ! i)"
    if "i \<le> j \<and> j < length (words dataset)" for i j
  proof -
    have j: "j < length (counts dataset)" "j < length (words dataset)"
      using that words_nth by blast+
    then have i: "i < length (words dataset)" using that by simp
    show ?thesis
      using that counts_descending [of i j dataset] j(1) words_freq [OF i] words_freq [OF j(2)]
      by simp
  qed
  have top: "freq dataset w \<le> freq dataset v"
    if w: "w \<in> set (corpus dataset) - set (words dataset)" and v: "v \<in> set (words dataset)" for w v
  proof -
    obtain i where i: "i < length (words dataset)" "words dataset ! i = v"
      using v by (auto simp: in_set_conv_nth)
    have "w \<in> set (map snd (counts dataset))" using w counts_words_set by simp
    then obtain j where j: "j < length (counts dataset)" "snd (counts dataset ! j) = w"
      by (auto simp: in_set_conv_nth)
    have "\<not> j < 1000"
    proof
      assume "j < 1000"
      then have "j < length (words dataset)" "words dataset ! j = w"
        using j by (simp_all add: words_take)
      then have "w \<in> set (words dataset)" using nth_mem by blast
      then show False using w by simp
    qed
    then have "i \<le> j" using i(1) len by simp
    then have "fst (counts dataset ! j) \<le> fst (counts dataset ! i)"
      using j(1) by (rule counts_descending)
    moreover have "fst (counts dataset ! j) = freq dataset w"
      using counts_entry [of "counts dataset ! j" dataset] j by simp
    ultimately show ?thesis using words_freq [OF i(1)] i(2) by simp
  qed
  show ?thesis
    apply (intro conjI)
    subgoal by (rule len)
    subgoal by (rule words_length)
    subgoal by (rule words_distinct)
    subgoal by (rule sub)
    subgoal using desc by blast
    subgoal using top by blast
    done
qed

text \<open>
  A corpus with more than 1000 distinct words: each record is a single word, a run of
  the letter \<open>a\<close>, and the runs have different lengths.
\<close>

lemma split_from_plain:
  "\<forall>c\<in>set s. \<not> isspace c \<Longrightarrow> split_from cur s = (if cur @ s = [] then [] else [cur @ s])"
  by (induction s arbitrary: cur) auto

lemma plain_a:
  "lower_char CHR ''a'' = CHR ''a''" "CHR ''a'' \<notin> set punctuation" "\<not> isspace CHR ''a''"
  by code_simp+

lemma tokens_plain:
  "tokens \<lparr>text_of = replicate (Suc n) CHR ''a'', stars = k\<rparr> = [replicate (Suc n) CHR ''a'']"
proof -
  have "strip_punct (replicate (Suc n) CHR ''a'') = replicate (Suc n) CHR ''a''"
    unfolding strip_punct_def lower_def by (simp add: plain_a)
  moreover have "\<forall>c\<in>set (replicate (Suc n) CHR ''a''). \<not> isspace c"
    using plain_a(3) by simp
  ultimately show ?thesis
    by (simp add: tokens_def split_ws_def split_from_plain)
qed

lemma many_words_corpus:
  "corpus many_words = map (\<lambda>n. replicate (Suc n) CHR ''a'') [0..<1001]"
proof -
  have "map tokens many_words = map (\<lambda>n. [replicate (Suc n) CHR ''a'']) [0..<1001]"
    unfolding many_words_def map_map comp_def tokens_plain by (rule refl)
  then show ?thesis by (simp add: corpus_def)
qed

lemma many_words_card: "card (set (corpus many_words)) = 1001"
proof -
  have "inj_on (\<lambda>n. replicate (Suc n) CHR ''a'') (set [0..<1001])"
    by (rule inj_onI) (metis length_replicate old.nat.inject)
  then have "distinct (corpus many_words)"
    unfolding many_words_corpus by (simp add: distinct_map)
  then have "card (set (corpus many_words)) = length (corpus many_words)"
    by (rule distinct_card)
  then show ?thesis by (simp add: many_words_corpus)
qed

lemma toy_words: "words toy_reviews = [''good'', ''food'', ''place'', ''bad'']"
  by code_simp

theorem vocabulary_top_K_witness:
  "words toy_reviews = [''good'', ''food'', ''place'', ''bad'']
   \<and> freq toy_reviews ''food'' \<le> freq toy_reviews ''good''
   \<and> freq toy_reviews ''bad'' \<le> freq toy_reviews ''food''
   \<and> length (words many_words) = 1000
   \<and> (\<exists>w\<in>set (corpus many_words) - set (words many_words).
         \<forall>v\<in>set (words many_words). freq many_words w \<le> freq many_words v)"
proof -
  note small = vocabulary_top_K [of toy_reviews]
  have desc: "\<forall>i j. i \<le> j \<and> j < length (words toy_reviews)
        \<longrightarrow> freq toy_reviews (words toy_reviews ! j) \<le> freq toy_reviews (words toy_reviews ! i)"
    using small by blast
  have four: "length (words toy_reviews) = 4" by (simp add: toy_words)
  have s1: "freq toy_reviews (words toy_reviews ! 1) \<le> freq toy_reviews (words toy_reviews ! 0)"
    using desc [rule_format, of 0 1] four by simp
  have s2: "freq toy_reviews (words toy_reviews ! 3) \<le> freq toy_reviews (words toy_reviews ! 1)"
    using desc [rule_format, of 1 3] four by simp
  note big = vocabulary_top_K [of many_words]
  have len: "length (words many_words) = 1000"
    using big by (simp add: many_words_card)
  have "card (set (words many_words)) = 1000"
    using big len distinct_card [of "words many_words"] by simp
  then have "set (words many_words) \<noteq> set (corpus many_words)"
    using many_words_card by auto
  moreover have "set (words many_words) \<subseteq> set (corpus many_words)" using big by blast
  ultimately obtain w where w: "w \<in> set (corpus many_words) - set (words many_words)"
    by blast
  have "\<forall>v\<in>set (words many_words). freq many_words w \<le> freq many_words v"
    using big w by blast
  then have far: "\<exists>w\<in>set (corpus many_words) - set (words many_words).
         \<forall>v\<in>set (words many_words). freq many_words w \<le> freq many_words v"
    using w by blast
  have near: "freq toy_reviews ''food'' \<le> freq toy_reviews ''good''"
    "freq toy_reviews ''bad'' \<le> freq toy_reviews ''food''"
    using s1 s2 by (simp_all add: toy_words)
  show ?thesis using toy_words near len far by (intro conjI)
qed

section \<open>Feature vectors\<close>

lemma wordId_SomeD: "wordId ws w = Some i \<Longrightarrow> i < length ws \<and> ws ! i = w"
proof -
  assume "wordId ws w = Some i"
  then have "(w, i) \<in> set (zip ws [0..<length ws])"
    unfolding wordId_def by (metis map_of_SomeD set_rev)
  then show ?thesis
    by (auto simp: set_zip)
qed

lemma wordId_defined: "w \<in> set ws \<Longrightarrow> \<exists>i. wordId ws w = Some i"
proof -
  assume "w \<in> set ws"
  then have "w \<in> fst ` set (rev (zip ws [0..<length ws]))"
    by (simp add: set_zip image_def in_set_conv_nth) (metis fst_conv)
  then show ?thesis
    unfolding wordId_def by (metis map_of_eq_None_iff not_None_eq)
qed

lemma wordId_distinct: "distinct ws \<Longrightarrow> i < length ws \<Longrightarrow> wordId ws (ws ! i) = Some i"
proof -
  assume d: "distinct ws" and i: "i < length ws"
  then obtain j where j: "wordId ws (ws ! i) = Some j"
    using wordId_defined nth_mem by blast
  then have "j < length ws" "ws ! j = ws ! i" using wordId_SomeD by blast+
  with d i have "j = i" by (simp add: nth_eq_iff_index_eq)
  with j show ?thesis by simp
qed

lemma count_loop_total:
  "length feat = length ws \<Longrightarrow>
   \<exists>feat'. count_loop ws r feat = Inr feat' \<and> length feat' = length ws"
proof (induction r arbitrary: feat)
  case Nil
  then show ?case by simp
next
  case (Cons w r)
  show ?case
  proof (cases "w \<in> set ws")
    case False
    then show ?thesis using Cons by (simp add: in_list_set)
  next
    case True
    then obtain i where i: "wordId ws w = Some i" using wordId_defined by blast
    then have "i < length ws" using wordId_SomeD by blast
    then have "add_one (wordId ws) w feat = Inr (feat[i := feat ! i + 1])"
      using i Cons.prems by (simp add: add_one_def)
    moreover have "length (feat[i := feat ! i + 1]) = length ws" using Cons.prems by simp
    ultimately show ?thesis
      using True Cons.IH [of "feat[i := feat ! i + 1]"] by (simp add: in_list_set)
  qed
qed

lemma count_loop_counts:
  assumes "distinct ws"
  shows "length feat = length ws \<Longrightarrow> count_loop ws r feat = Inr feat' \<Longrightarrow> i < length ws
    \<Longrightarrow> feat' ! i = feat ! i + int (count_list r (ws ! i))"
proof (induction r arbitrary: feat)
  case Nil
  then show ?case by simp
next
  case (Cons w r)
  show ?case
  proof (cases "w \<in> set ws")
    case False
    then have "ws ! i \<noteq> w" using Cons.prems(3) nth_mem by blast
    then show ?thesis using False Cons by (simp add: in_list_set)
  next
    case True
    then obtain j where j: "j < length ws" "ws ! j = w" by (auto simp: in_set_conv_nth)
    then have wid: "wordId ws w = Some j" using wordId_distinct [OF assms, of j] by simp
    let ?f = "feat[j := feat ! j + 1]"
    have step: "add_one (wordId ws) w feat = Inr ?f"
      using wid j Cons.prems(1) by (simp add: add_one_def)
    have rest: "count_loop ws r ?f = Inr feat'"
      using Cons.prems(2) True step by (simp add: in_list_set)
    have len: "length ?f = length ws" using Cons.prems(1) by simp
    have ih: "feat' ! i = ?f ! i + int (count_list r (ws ! i))"
      by (rule Cons.IH [OF len rest Cons.prems(3)])
    show ?thesis
    proof (cases "i = j")
      case True
      then show ?thesis using ih j Cons.prems(1) by simp
    next
      case False
      then have "ws ! i \<noteq> w" using assms j Cons.prems(3) by (auto simp: nth_eq_iff_index_eq)
      then show ?thesis using ih False by simp
    qed
  qed
qed

lemma feature_general:
  "\<exists>v. feature ws d = Inr v \<and> length v = length ws + 1 \<and> last v = 1
     \<and> (distinct ws \<longrightarrow> (\<forall>i<length ws. v ! i = int (count_list (tokens d) (ws ! i))))"
proof -
  obtain feat where feat: "count_loop ws (tokens d) (replicate (length ws) 0) = Inr feat"
    and len: "length feat = length ws"
    using count_loop_total [of "replicate (length ws) 0" ws "tokens d"] by auto
  have v: "feature ws d = Inr (feat @ [1])" by (simp add: feature_def feat)
  have "\<forall>i<length ws. (feat @ [1]) ! i = int (count_list (tokens d) (ws ! i))" if "distinct ws"
  proof (intro allI impI)
    fix i assume i: "i < length ws"
    have "feat ! i = replicate (length ws) 0 ! i + int (count_list (tokens d) (ws ! i))"
      by (rule count_loop_counts [OF that _ feat i]) simp
    then show "(feat @ [1]) ! i = int (count_list (tokens d) (ws ! i))"
      using i len by (simp add: nth_append)
  qed
  then show ?thesis using v len by simp
qed

text \<open>
  Claim C4. For every vocabulary list \<open>ws\<close> and every record, \<open>feature\<close> returns (it
  raises neither \<open>KeyError\<close> nor \<open>IndexError\<close>) a vector of length \<open>length ws + 1\<close>
  whose last element is 1; when the entries of \<open>ws\<close> are distinct, the element at each
  index \<open>i < length ws\<close> is the number of occurrences of the word \<open>ws ! i\<close> among the
  tokens of the record. The vocabulary that cell 46 builds from a corpus is always
  distinct (lemma \<open>words_distinct\<close>), so for it the counts hold without condition.
\<close>

theorem feature_shape:
  "(\<exists>v. feature ws d = Inr v \<and> length v = length ws + 1 \<and> last v = 1
      \<and> (distinct ws \<longrightarrow> (\<forall>i<length ws. v ! i = int (count_list (tokens d) (ws ! i)))))
   \<and> (\<exists>v. feature (words dataset) d = Inr v \<and> length v = length (words dataset) + 1
      \<and> last v = 1
      \<and> (\<forall>i<length (words dataset). v ! i = int (count_list (tokens d) (words dataset ! i))))"
  using feature_general [of ws d] feature_general [of "words dataset" d] words_distinct [of dataset]
  by blast

lemma toy_feature: "feature (words toy_reviews) toy_datum = Inr [2, 1, 0, 1, 1]"
  by code_simp

theorem feature_shape_witness:
  "distinct (words toy_reviews)
   \<and> words toy_reviews = [''good'', ''food'', ''place'', ''bad'']
   \<and> feature (words toy_reviews) toy_datum = Inr [2, 1, 0, 1, 1]
   \<and> int (count_list (tokens toy_datum) ''good'') = 2
   \<and> int (count_list (tokens toy_datum) ''place'') = 0"
proof -
  obtain v where v: "feature (words toy_reviews) toy_datum = Inr v"
    and c: "\<forall>i<length (words toy_reviews).
        v ! i = int (count_list (tokens toy_datum) (words toy_reviews ! i))"
    using feature_shape [of "words toy_reviews" toy_datum toy_reviews] by blast
  have v': "v = [2, 1, 0, 1, 1]" using v toy_feature by simp
  have "v ! 0 = int (count_list (tokens toy_datum) (words toy_reviews ! 0))"
    "v ! 2 = int (count_list (tokens toy_datum) (words toy_reviews ! 2))"
    using c by (simp_all add: toy_words)
  then have "int (count_list (tokens toy_datum) ''good'') = 2"
    "int (count_list (tokens toy_datum) ''place'') = 0"
    by (simp_all add: v' toy_words)
  then show ?thesis using words_distinct [of toy_reviews] toy_words toy_feature by (intro conjI)
qed

end
